theory Spec2Isabelle
  imports Main "HOL-Library.Multiset"
begin

section \<open>Video records and the feed\<close>

text \<open>
  A video record as \<^verbatim>\<open>fetchDashboardData\<close> reads it. Every field may be absent
  (\<^verbatim>\<open>undefined\<close> or \<^verbatim>\<open>null\<close>), which is \<open>None\<close>. Counters are integers, strings are
  ASCII. The nested \<^verbatim>\<open>uploader\<close> object carries an optional \<^verbatim>\<open>email\<close>.
\<close>

record uploader_obj =
  email :: "string option"

record video =
  video_id :: "string option"
  title :: "string option"
  views :: "int option"
  likes :: "int option"
  upload_date :: "string option"
  uploader_email :: "string option"
  uploader :: "uploader_obj option"

text \<open>The stats object of the Dashboard component (\<^verbatim>\<open>useState\<close>, lines 314-321).\<close>

record stats =
  totalVideos :: nat
  totalViews :: int
  totalLikes :: int
  storageUsed :: int
  recentVideos :: "video list"
  popularVideos :: "video list"

text \<open>
  The literal \<^verbatim>\<open>{totalVideos: 0, totalViews: 0, totalLikes: 0, storageUsed: 0,
  recentVideos: [], popularVideos: []}\<close>, written out four times in the source
  (lines 314, 357, 394, 407).
\<close>

definition emptyStats :: stats where
  "emptyStats =
     \<lparr>totalVideos = 0, totalViews = 0, totalLikes = 0,
      storageUsed = 0, recentVideos = [], popularVideos = []\<rparr>"

section \<open>Built-ins of the language\<close>

text \<open>\<^verbatim>\<open>String.prototype.toLowerCase\<close> on ASCII strings: \<^verbatim>\<open>A\<close>-\<^verbatim>\<open>Z\<close> move to \<^verbatim>\<open>a\<close>-\<^verbatim>\<open>z\<close>.\<close>

definition lowerChar :: "char \<Rightarrow> char" where
  "lowerChar c =
     (let n = (of_char c :: nat)
      in if 65 \<le> n \<and> n \<le> 90 then char_of (n + 32) else c)"

definition toLowerCase :: "string \<Rightarrow> string" where
  "toLowerCase s = map lowerChar s"

text \<open>
  \<^verbatim>\<open>Date.parse\<close> is a parameter of the development: a function from the date string to
  the time value in milliseconds since the epoch, \<open>None\<close> standing for \<^verbatim>\<open>NaN\<close>
  (an invalid date).
\<close>

type_synonym date_parser = "string \<Rightarrow> int option"

text \<open>
  One instance of the parameter: the date-only form \<^verbatim>\<open>YYYY-MM-DD\<close> of the ECMAScript
  date-time string format, read as midnight UTC. Every other string is \<open>None\<close> here.
\<close>

definition digitValue :: "char \<Rightarrow> int option" where
  "digitValue c =
     (let n = (of_char c :: nat)
      in if 48 \<le> n \<and> n \<le> 57 then Some (int n - 48) else None)"

fun digitsValue :: "int \<Rightarrow> string \<Rightarrow> int option" where
  "digitsValue acc [] = Some acc"
| "digitsValue acc (c # cs) =
     (case digitValue c of
        None \<Rightarrow> None
      | Some d \<Rightarrow> digitsValue (10 * acc + d) cs)"

definition isLeapYear :: "int \<Rightarrow> bool" where
  "isLeapYear y \<longleftrightarrow> y mod 4 = 0 \<and> (y mod 100 \<noteq> 0 \<or> y mod 400 = 0)"

definition daysInMonth :: "int \<Rightarrow> int \<Rightarrow> int" where
  "daysInMonth y m =
     (if m = 2 then (if isLeapYear y then 29 else 28)
      else if m = 4 \<or> m = 6 \<or> m = 9 \<or> m = 11 then 30 else 31)"

text \<open>Days from 1970-01-01 to the civil date \<open>y\<close>-\<open>m\<close>-\<open>d\<close> (proleptic Gregorian).\<close>

definition daysFromCivil :: "int \<Rightarrow> int \<Rightarrow> int \<Rightarrow> int" where
  "daysFromCivil y m d =
     (let y' = (if m \<le> 2 then y - 1 else y);
          era = y' div 400;
          yoe = y' - era * 400;
          doy = (153 * (if m > 2 then m - 3 else m + 9) + 2) div 5 + d - 1;
          doe = yoe * 365 + yoe div 4 - yoe div 100 + doy
      in era * 146097 + doe - 719468)"

definition isoDateOnly :: date_parser where
  "isoDateOnly s =
     (if length s = 10 \<and> s ! 4 = CHR ''-'' \<and> s ! 7 = CHR ''-'' then
        (case (digitsValue 0 (take 4 s), digitsValue 0 (take 2 (drop 5 s)),
               digitsValue 0 (drop 8 s)) of
           (Some y, Some m, Some d) \<Rightarrow>
             if 1 \<le> m \<and> m \<le> 12 \<and> 1 \<le> d \<and> d \<le> daysInMonth y m
             then Some (daysFromCivil y m d * 86400000)
             else None
         | _ \<Rightarrow> None)
      else None)"

text \<open>
  \<^verbatim>\<open>Array.prototype.sort(comparator)\<close>. The comparator returns a number, \<open>None\<close> standing
  for \<^verbatim>\<open>NaN\<close>, which the sort reads as \<open>+0\<close>. The sort is stable; with a consistent
  comparator the result is the same for every conforming implementation, and it is
  computed here by insertion: an element goes in front of the first later element it
  does not have to follow.
\<close>

definition sortCompare :: "('a \<Rightarrow> 'a \<Rightarrow> int option) \<Rightarrow> 'a \<Rightarrow> 'a \<Rightarrow> int" where
  "sortCompare comparator x y = (case comparator x y of None \<Rightarrow> 0 | Some v \<Rightarrow> v)"

fun sortInsert :: "('a \<Rightarrow> 'a \<Rightarrow> int option) \<Rightarrow> 'a \<Rightarrow> 'a list \<Rightarrow> 'a list" where
  "sortInsert comparator x [] = [x]"
| "sortInsert comparator x (y # ys) =
     (if sortCompare comparator x y \<le> 0 then x # y # ys
      else y # sortInsert comparator x ys)"

fun arraySort :: "('a \<Rightarrow> 'a \<Rightarrow> int option) \<Rightarrow> 'a list \<Rightarrow> 'a list" where
  "arraySort comparator [] = []"
| "arraySort comparator (x # xs) = sortInsert comparator x (arraySort comparator xs)"

section \<open>The stats of one fetch (\<^verbatim>\<open>fetchDashboardData\<close>, lines 365-398)\<close>

text \<open>\<^verbatim>\<open>x?.toLowerCase() === user.email.toLowerCase()\<close> for an optional string \<open>x\<close>.\<close>

definition lowerEquals :: "string option \<Rightarrow> string \<Rightarrow> bool" where
  "lowerEquals x userEmail =
     (case x of None \<Rightarrow> False | Some s \<Rightarrow> toLowerCase s = toLowerCase userEmail)"

text \<open>\<^verbatim>\<open>video.uploader?.email\<close>\<close>

definition nestedEmail :: "video \<Rightarrow> string option" where
  "nestedEmail v = (case uploader v of None \<Rightarrow> None | Some u \<Rightarrow> email u)"

text \<open>The predicate of the filter, lines 366-371.\<close>

definition isUserVideo :: "string \<Rightarrow> video \<Rightarrow> bool" where
  "isUserVideo userEmail v \<longleftrightarrow>
     lowerEquals (uploader_email v) userEmail \<or> lowerEquals (nestedEmail v) userEmail"

definition userVideos :: "string \<Rightarrow> video list \<Rightarrow> video list" where
  "userVideos userEmail allVideos = filter (isUserVideo userEmail) allVideos"

text \<open>\<^verbatim>\<open>n || 0\<close> for an optional counter: absent, \<^verbatim>\<open>NaN\<close> and \<open>0\<close> all give \<open>0\<close>.\<close>

definition orZero :: "int option \<Rightarrow> int" where
  "orZero n = (case n of None \<Rightarrow> 0 | Some k \<Rightarrow> k)"

text \<open>
  The time value of \<^verbatim>\<open>new Date(v.upload_date || 0)\<close>: the epoch when the date is absent
  or the empty string, what the parser says otherwise.
\<close>

definition dateValue :: "date_parser \<Rightarrow> video \<Rightarrow> int option" where
  "dateValue parse v =
     (case upload_date v of
        None \<Rightarrow> Some 0
      | Some s \<Rightarrow> if s = [] then Some 0 else parse s)"

text \<open>The comparators of lines 377-382.\<close>

definition compareByDate :: "date_parser \<Rightarrow> video \<Rightarrow> video \<Rightarrow> int option" where
  "compareByDate parse a b =
     (case (dateValue parse b, dateValue parse a) of
        (Some tb, Some ta) \<Rightarrow> Some (tb - ta)
      | _ \<Rightarrow> None)"

definition compareByViews :: "video \<Rightarrow> video \<Rightarrow> int option" where
  "compareByViews a b = Some (orZero (views b) - orZero (views a))"

text \<open>
  The argument of \<^verbatim>\<open>setStats\<close> once the feed is known to be an array (lines 365-398):
  both branches of \<^verbatim>\<open>userVideos.length > 0\<close>.
\<close>

definition computeStats :: "date_parser \<Rightarrow> string \<Rightarrow> video list \<Rightarrow> stats" where
  "computeStats parse userEmail allVideos =
     (let uv = userVideos userEmail allVideos
      in if length uv > 0 then
           (let sortedByDate = arraySort (compareByDate parse) uv;
                sortedByViews = arraySort compareByViews uv
            in \<lparr>totalVideos = length uv,
                totalViews = foldl (\<lambda>sum v. sum + orZero (views v)) 0 uv,
                totalLikes = foldl (\<lambda>sum v. sum + orZero (likes v)) 0 uv,
                storageUsed = 25,
                recentVideos = take 3 sortedByDate,
                popularVideos = take 2 sortedByViews\<rparr>)
         else emptyStats)"

section \<open>The Dashboard component (lines 309-460)\<close>

text \<open>
  What \<^verbatim>\<open>VideoService.getVideoFeed()\<close> settles with: it resolves with an array of video
  records or with some other value, or it rejects with an error object whose \<^verbatim>\<open>message\<close>
  may be absent.
\<close>

record fetch_error =
  message :: "string option"

datatype feed_response = ArrayOf "video list" | NonArray

datatype fetch_outcome = Resolved feed_response | Rejected fetch_error

text \<open>The three \<^verbatim>\<open>useState\<close> cells of the component and the calls of their setters.\<close>

record dashboard =
  loading :: bool
  error :: "string option"
  stats :: stats

datatype setter = setLoading bool | setError "string option" | setStats stats

fun applySetter :: "dashboard \<Rightarrow> setter \<Rightarrow> dashboard" where
  "applySetter d (setLoading b) = d\<lparr>loading := b\<rparr>"
| "applySetter d (setError e) = d\<lparr>error := e\<rparr>"
| "applySetter d (setStats s) = d\<lparr>stats := s\<rparr>"

text \<open>The state of the component at its first render (lines 312-321).\<close>

definition initialDashboard :: dashboard where
  "initialDashboard = \<lparr>loading = True, error = None, stats = emptyStats\<rparr>"

text \<open>\<^verbatim>\<open>fetchError.message || 'Failed to load video data. Please try again later.'\<close>\<close>

definition errorMessage :: "fetch_error \<Rightarrow> string" where
  "errorMessage fetchError =
     (case message fetchError of
        None \<Rightarrow> ''Failed to load video data. Please try again later.''
      | Some m \<Rightarrow>
          if m = [] then ''Failed to load video data. Please try again later.'' else m)"

text \<open>
  \<^verbatim>\<open>fetchDashboardData\<close> up to its \<^verbatim>\<open>await\<close> (lines 336-337), and from the \<^verbatim>\<open>await\<close> on
  (lines 347-417), as the setter calls it makes in order. \<open>isMounted\<close> is the value of the
  closure's flag when the awaited promise settles. The \<^verbatim>\<open>finally\<close> block runs after
  every path, the early \<^verbatim>\<open>return\<close>s included.
\<close>

definition beforeAwait :: "setter list" where
  "beforeAwait = [setLoading True, setError None]"

definition afterAwait :: "date_parser \<Rightarrow> string \<Rightarrow> bool \<Rightarrow> fetch_outcome \<Rightarrow> setter list" where
  "afterAwait parse userEmail isMounted outcome =
     (case outcome of
        Resolved allVideos \<Rightarrow>
          if \<not> isMounted then []
          else (case allVideos of
                  NonArray \<Rightarrow> [setStats emptyStats, setLoading False]
                | ArrayOf vs \<Rightarrow> [setStats (computeStats parse userEmail vs)])
      | Rejected fetchError \<Rightarrow>
          if isMounted then [setError (Some (errorMessage fetchError)), setStats emptyStats]
          else [])
     @ (if isMounted then [setLoading False] else [])"

text \<open>
  One run of the effect that passed the guard of line 328: the component's state, every
  setter call made so far, the closure's \<^verbatim>\<open>isMounted\<close> flag, and whether the fetch is
  still in flight.
\<close>

record fetch_run =
  component :: dashboard
  calls :: "setter list"
  isMounted :: bool
  awaiting :: bool

definition call :: "setter list \<Rightarrow> fetch_run \<Rightarrow> fetch_run" where
  "call ws r = r\<lparr>component := foldl applySetter (component r) ws, calls := calls r @ ws\<rparr>"

text \<open>Lines 333-337 and 420: the flag is set, the fetch starts and suspends.\<close>

definition startFetch :: "dashboard \<Rightarrow> fetch_run" where
  "startFetch d =
     call beforeAwait \<lparr>component = d, calls = [], isMounted = True, awaiting = True\<rparr>"

text \<open>
  What can happen to a run: the cleanup function of the effect is called (the component
  unmounts, or a dependency changed), or the awaited promise settles.
\<close>

datatype event = Cleanup | Settle fetch_outcome

fun step :: "date_parser \<Rightarrow> string \<Rightarrow> fetch_run \<Rightarrow> event \<Rightarrow> fetch_run" where
  "step parse userEmail r Cleanup = r\<lparr>isMounted := False\<rparr>"
| "step parse userEmail r (Settle outcome) =
     (if awaiting r
      then call (afterAwait parse userEmail (isMounted r) outcome) (r\<lparr>awaiting := False\<rparr>)
      else r)"

definition runEvents :: "date_parser \<Rightarrow> string \<Rightarrow> fetch_run \<Rightarrow> event list \<Rightarrow> fetch_run" where
  "runEvents parse userEmail r evs = foldl (step parse userEmail) r evs"

text \<open>What the component shows (lines 432-456), and the \<^verbatim>\<open>onDismiss\<close> handler of the alert.\<close>

datatype view = LoadingSpinner | ErrorAlert string | DashboardHome stats | Outlet

definition dashboardView :: "bool \<Rightarrow> dashboard \<Rightarrow> view" where
  "dashboardView isMainDashboard d =
     (if isMainDashboard then
        (if loading d then LoadingSpinner
         else (case error d of
                 None \<Rightarrow> DashboardHome (stats d)
               | Some e \<Rightarrow> if e = [] then DashboardHome (stats d) else ErrorAlert e))
      else Outlet)"

definition onDismiss :: "dashboard \<Rightarrow> dashboard" where
  "onDismiss d = applySetter d (setError None)"

section \<open>The PrivateRoute component (lines 7-32)\<close>

text \<open>
  The auth context gives \<^verbatim>\<open>user\<close> (absent when nobody is signed in) and \<^verbatim>\<open>loading\<close>. The
  component keeps \<^verbatim>\<open>authChecked\<close>; \<open>deps\<close> is the dependency array \<^verbatim>\<open>[loading]\<close> of the last
  run of its effect, \<open>None\<close> before the first.
\<close>

record user_obj =
  user_email :: "string option"
  displayName :: "string option"

record auth_context =
  user :: "user_obj option"
  authLoading :: bool

record private_route =
  authChecked :: bool
  deps :: "bool option"

datatype ('l, 'c) element =
    Spinner
  | Navigate (to: string) (stateFrom: 'l) (replace: bool)
  | Children 'c

definition PrivateRoute ::
  "auth_context \<Rightarrow> 'l \<Rightarrow> 'c \<Rightarrow> private_route \<Rightarrow> ('l, 'c) element" where
  "PrivateRoute ctx location children st =
     (if authLoading ctx \<and> \<not> authChecked st then Spinner
      else if user ctx = None then Navigate ''/login'' location True
      else Children children)"

text \<open>
  The effect of lines 13-17, run after a render: skipped when \<^verbatim>\<open>loading\<close> is what it was
  at the last run.
\<close>

definition authEffect :: "private_route \<Rightarrow> auth_context \<Rightarrow> private_route" where
  "authEffect st ctx =
     (if deps st = Some (authLoading ctx) then st
      else if \<not> authLoading ctx
           then st\<lparr>authChecked := True, deps := Some (authLoading ctx)\<rparr>
           else st\<lparr>deps := Some (authLoading ctx)\<rparr>)"

definition initialPrivateRoute :: private_route where
  "initialPrivateRoute = \<lparr>authChecked = False, deps = None\<rparr>"

text \<open>The state after the renders of a history of contexts, oldest first.\<close>

definition afterRenders :: "auth_context list \<Rightarrow> private_route" where
  "afterRenders history = foldl authEffect initialPrivateRoute history"

text \<open>
  Auth has settled by the end of a history when the provider has reported
  \<^verbatim>\<open>loading = false\<close> at some render of it.
\<close>

definition settled :: "auth_context list \<Rightarrow> bool" where
  "settled history = list_ex (\<lambda>ctx. \<not> authLoading ctx) history"

section \<open>The words of the specification\<close>

text \<open>
  The uploader emails a record carries: its \<^verbatim>\<open>uploader_email\<close> and the \<^verbatim>\<open>email\<close> of its
  nested \<^verbatim>\<open>uploader\<close>. A record is the user's when one of them equals the user's email
  up to letter case.
\<close>

definition spec_uploaderEmails :: "video \<Rightarrow> string list" where
  "spec_uploaderEmails v =
     (case uploader_email v of None \<Rightarrow> [] | Some s \<Rightarrow> [s]) @
     (case nestedEmail v of None \<Rightarrow> [] | Some s \<Rightarrow> [s])"

definition spec_matchesUser :: "string \<Rightarrow> video \<Rightarrow> bool" where
  "spec_matchesUser e v =
     list_ex (\<lambda>s. toLowerCase s = toLowerCase e) (spec_uploaderEmails v)"

text \<open>
  The time a record is ordered by: the time value of its date, the epoch (\<open>0\<close>) when
  the date is missing.
\<close>

definition spec_uploadTime :: "date_parser \<Rightarrow> video \<Rightarrow> int" where
  "spec_uploadTime parse v = (case dateValue parse v of None \<Rightarrow> 0 | Some t \<Rightarrow> t)"

section \<open>Sample records\<close>

text \<open>The two records of the specification's example, and two more.\<close>

abbreviation janVideo :: video where
  "janVideo \<equiv>
     \<lparr>video_id = None, title = None, views = Some 5, likes = Some 1,
      upload_date = Some ''2024-01-01'', uploader_email = Some ''A@x.com'',
      uploader = None\<rparr>"

abbreviation febVideo :: video where
  "febVideo \<equiv>
     \<lparr>video_id = None, title = None, views = Some 10, likes = Some 2,
      upload_date = Some ''2024-02-01'', uploader_email = Some ''a@x.com'',
      uploader = None\<rparr>"

abbreviation nestedVideo :: video where
  "nestedVideo \<equiv>
     \<lparr>video_id = Some ''7'', title = Some ''Nested'', views = Some 7, likes = None,
      upload_date = None, uploader_email = Some ''other@x.com'',
      uploader = Some \<lparr>email = Some ''A@X.COM''\<rparr>\<rparr>"

abbreviation otherVideo :: video where
  "otherVideo \<equiv>
     \<lparr>video_id = Some ''8'', title = Some ''Other'', views = Some 100, likes = Some 50,
      upload_date = Some ''2024-03-01'', uploader_email = Some ''b@x.com'',
      uploader = None\<rparr>"

text \<open>
  Two more records of the user \<^verbatim>\<open>a@x.com\<close>: one of March, and one whose \<^verbatim>\<open>upload_date\<close> is
  a string that \<^verbatim>\<open>Date.parse\<close> reads as \<^verbatim>\<open>NaN\<close>.
\<close>

abbreviation marVideo :: video where
  "marVideo \<equiv>
     \<lparr>video_id = Some ''3'', title = Some ''March'', views = Some 1, likes = Some 0,
      upload_date = Some ''2024-03-01'', uploader_email = Some ''a@x.com'',
      uploader = None\<rparr>"

abbreviation garbageVideo :: video where
  "garbageVideo \<equiv>
     \<lparr>video_id = Some ''9'', title = Some ''Garbage'', views = Some 2, likes = Some 0,
      upload_date = Some ''garbage'', uploader_email = Some ''a@x.com'',
      uploader = None\<rparr>"

text \<open>
  The component after a first fetch for \<^verbatim>\<open>a@x.com\<close> has resolved with the February record
  alone.
\<close>

abbreviation afterFirstFetch :: dashboard where
  "afterFirstFetch \<equiv>
     component (runEvents isoDateOnly ''a@x.com'' (startFetch initialDashboard)
       [Settle (Resolved (ArrayOf [febVideo]))])"

section \<open>Lemmas\<close>

subsection \<open>The filter and the totals\<close>

lemma isUserVideo_spec: "isUserVideo e v = spec_matchesUser e v"
  by (simp add: isUserVideo_def spec_matchesUser_def spec_uploaderEmails_def lowerEquals_def
      split: option.splits)

lemma userVideos_spec: "userVideos e vs = filter (spec_matchesUser e) vs"
  by (simp add: userVideos_def isUserVideo_spec [abs_def])

lemma foldl_plus_sum_list:
  "foldl (\<lambda>sum v. sum + f v) a xs = a + sum_list (map f xs)" for a :: int
  by (induction xs arbitrary: a) simp_all

lemma computeStats_append:
  "isUserVideo e v \<Longrightarrow>
   totalVideos (computeStats parse e (xs @ v # ys)) =
     totalVideos (computeStats parse e (xs @ ys)) + 1 \<and>
   totalViews (computeStats parse e (xs @ v # ys)) =
     totalViews (computeStats parse e (xs @ ys)) + orZero (views v) \<and>
   totalLikes (computeStats parse e (xs @ v # ys)) =
     totalLikes (computeStats parse e (xs @ ys)) + orZero (likes v)"
  by (simp add: computeStats_def emptyStats_def Let_def foldl_plus_sum_list userVideos_def)

subsection \<open>The sort\<close>

lemma mset_sortInsert: "mset (sortInsert c x ys) = add_mset x (mset ys)"
  by (induction ys) simp_all

lemma mset_arraySort: "mset (arraySort c xs) = mset xs"
  by (induction xs) (simp_all add: mset_sortInsert)

lemma set_sortInsert: "set (sortInsert c x ys) = insert x (set ys)"
  using mset_sortInsert [of c x ys, THEN arg_cong, of set_mset] by simp

lemma set_arraySort: "set (arraySort c xs) = set xs"
  using mset_arraySort [of c xs, THEN arg_cong, of set_mset] by simp

text \<open>
  Where the comparator is the difference of a key, the second argument's minus the
  first's, inserting keeps a list descending by that key.
\<close>

lemma sorted_sortInsert:
  assumes "\<And>y. y \<in> set ys \<Longrightarrow> sortCompare c x y = key y - key x"
    and "sorted_wrt (\<lambda>a b. key b \<le> key a) ys"
  shows "sorted_wrt (\<lambda>a b. key b \<le> (key a :: int)) (sortInsert c x ys)"
  using assms
proof (induction ys)
  case Nil
  then show ?case by simp
next
  case (Cons y ys)
  show ?case
  proof (cases "sortCompare c x y \<le> 0")
    case True
    with Cons.prems have "key y \<le> key x" by simp
    with Cons.prems True show ?thesis by fastforce
  next
    case False
    with Cons.prems have "key x \<le> key y" by simp
    with Cons False show ?thesis by (auto simp: set_sortInsert)
  qed
qed

lemma sorted_arraySort:
  assumes "\<And>x y. x \<in> set xs \<Longrightarrow> y \<in> set xs \<Longrightarrow> sortCompare c x y = key y - key x"
  shows "sorted_wrt (\<lambda>a b. key b \<le> (key a :: int)) (arraySort c xs)"
  using assms
proof (induction xs)
  case Nil
  then show ?case by simp
next
  case (Cons x xs)
  have "sorted_wrt (\<lambda>a b. key b \<le> key a) (arraySort c xs)"
    using Cons by simp
  moreover have "\<And>y. y \<in> set (arraySort c xs) \<Longrightarrow> sortCompare c x y = key y - key x"
    using Cons.prems by (simp add: set_arraySort)
  ultimately show ?case by (simp add: sorted_sortInsert)
qed

lemma sortCompare_views:
  "sortCompare compareByViews a b = orZero (views b) - orZero (views a)"
  by (simp add: sortCompare_def compareByViews_def)

lemma sortCompare_date:
  "dateValue parse a \<noteq> None \<Longrightarrow> dateValue parse b \<noteq> None \<Longrightarrow>
   sortCompare (compareByDate parse) a b = spec_uploadTime parse b - spec_uploadTime parse a"
  by (auto simp: sortCompare_def compareByDate_def spec_uploadTime_def)

lemma recentVideos_computeStats:
  "recentVideos (computeStats parse e vs) =
     take 3 (arraySort (compareByDate parse) (userVideos e vs))"
  by (simp add: computeStats_def emptyStats_def Let_def)

lemma popularVideos_computeStats:
  "popularVideos (computeStats parse e vs) =
     take 2 (arraySort compareByViews (userVideos e vs))"
  by (simp add: computeStats_def emptyStats_def Let_def)

subsection \<open>Runs of the fetch\<close>

lemma runEvents_Nil: "runEvents parse e r [] = r"
  by (simp add: runEvents_def)

lemma runEvents_Cons:
  "runEvents parse e r (ev # evs) = runEvents parse e (step parse e r ev) evs"
  by (simp add: runEvents_def)

lemma afterAwait_unmounted: "afterAwait parse e False outcome = []"
  by (simp add: afterAwait_def split: fetch_outcome.splits)

lemma call_Nil: "call [] r = r"
  by (simp add: call_def)

text \<open>Once the flag is down it stays down, and no event makes a setter call.\<close>

lemma step_unmounted:
  "\<not> isMounted r \<Longrightarrow>
   \<not> isMounted (step parse e r ev) \<and> calls (step parse e r ev) = calls r \<and>
   component (step parse e r ev) = component r"
  by (cases ev) (simp_all add: afterAwait_unmounted call_Nil)

lemma runEvents_unmounted:
  "\<not> isMounted r \<Longrightarrow>
   calls (runEvents parse e r evs) = calls r \<and>
   component (runEvents parse e r evs) = component r"
proof (induction evs arbitrary: r)
  case Nil
  show ?case by (simp add: runEvents_Nil)
next
  case (Cons ev evs)
  from step_unmounted [OF Cons.prems, of parse e ev] Cons.IH [of "step parse e r ev"]
  show ?case by (simp add: runEvents_Cons)
qed

text \<open>A promise settles once: after that, no event changes the component.\<close>

lemma step_settled:
  "\<not> awaiting r \<Longrightarrow>
   \<not> awaiting (step parse e r ev) \<and> calls (step parse e r ev) = calls r \<and>
   component (step parse e r ev) = component r"
  by (cases ev) simp_all

lemma runEvents_settled:
  "\<not> awaiting r \<Longrightarrow>
   calls (runEvents parse e r evs) = calls r \<and>
   component (runEvents parse e r evs) = component r"
proof (induction evs arbitrary: r)
  case Nil
  show ?case by (simp add: runEvents_Nil)
next
  case (Cons ev evs)
  from step_settled [OF Cons.prems, of parse e ev] Cons.IH [of "step parse e r ev"]
  show ?case by (simp add: runEvents_Cons)
qed

lemma run_settle_first:
  "component (runEvents parse e (startFetch d) (Settle outcome # evs)) =
     foldl applySetter d (beforeAwait @ afterAwait parse e True outcome)"
proof -
  let ?r = "step parse e (startFetch d) (Settle outcome)"
  have "\<not> awaiting ?r" by (simp add: startFetch_def call_def)
  from runEvents_settled [OF this, of parse e evs]
  show ?thesis by (simp add: runEvents_Cons startFetch_def call_def)
qed

lemma errorMessage_nonempty: "errorMessage fetchError \<noteq> []"
  by (simp add: errorMessage_def split: option.splits)

subsection \<open>The renders of PrivateRoute\<close>

lemma afterRenders_snoc: "afterRenders (h @ [c]) = authEffect (afterRenders h) c"
  by (simp add: afterRenders_def)

lemma settled_snoc: "settled (h @ [c]) \<longleftrightarrow> settled h \<or> \<not> authLoading c"
  by (simp add: settled_def list_ex_iff) blast

lemma settled_last: "h \<noteq> [] \<Longrightarrow> \<not> authLoading (last h) \<Longrightarrow> settled h"
  using last_in_set [of h] by (auto simp: settled_def list_ex_iff)

text \<open>
  \<^verbatim>\<open>authChecked\<close> says whether auth had settled by the previous render, although the
  effect is skipped whenever \<^verbatim>\<open>loading\<close> has not changed.
\<close>

lemma afterRenders_invariant:
  "authChecked (afterRenders h) = settled h \<and>
   deps (afterRenders h) = (if h = [] then None else Some (authLoading (last h)))"
proof (induction h rule: rev_induct)
  case Nil
  show ?case by (simp add: afterRenders_def initialPrivateRoute_def settled_def)
next
  case (snoc c h)
  show ?case
  proof (cases "deps (afterRenders h) = Some (authLoading c)")
    case True
    with snoc have ne: "h \<noteq> []" and same: "authLoading (last h) = authLoading c"
      by (auto split: if_splits)
    have "\<not> authLoading c \<Longrightarrow> settled h"
      using ne same settled_last by simp
    with True snoc show ?thesis
      by (auto simp: afterRenders_snoc settled_snoc authEffect_def)
  next
    case False
    with snoc show ?thesis
      by (simp add: afterRenders_snoc settled_snoc authEffect_def)
  qed
qed

lemma authChecked_afterRenders: "authChecked (afterRenders h) = settled h"
  by (simp add: afterRenders_invariant)

section \<open>The claims\<close>

subsection \<open>Totals\<close>

text \<open>
  C1. For every user email and every feed, the computed \<^verbatim>\<open>totalViews\<close> and \<^verbatim>\<open>totalLikes\<close>
  are the sums of the \<^verbatim>\<open>views\<close> and of the \<^verbatim>\<open>likes\<close> (an absent counter adding \<open>0\<close>) over
  exactly the records whose uploader email matches the user's up to letter case, and
  \<^verbatim>\<open>totalVideos\<close> is the number of these records.
\<close>

theorem computeStats_totals:
  "totalViews (computeStats parse e allVideos) =
     (\<Sum>v\<leftarrow>filter (spec_matchesUser e) allVideos. orZero (views v)) \<and>
   totalLikes (computeStats parse e allVideos) =
     (\<Sum>v\<leftarrow>filter (spec_matchesUser e) allVideos. orZero (likes v)) \<and>
   totalVideos (computeStats parse e allVideos) =
     length (filter (spec_matchesUser e) allVideos)"
  by (simp add: computeStats_def emptyStats_def Let_def foldl_plus_sum_list userVideos_spec)

theorem computeStats_totals_witness:
  "totalViews (computeStats isoDateOnly ''a@x.com'' [janVideo, otherVideo, nestedVideo, febVideo])
     = 22 \<and>
   totalLikes (computeStats isoDateOnly ''a@x.com'' [janVideo, otherVideo, nestedVideo, febVideo])
     = 3 \<and>
   totalVideos (computeStats isoDateOnly ''a@x.com'' [janVideo, otherVideo, nestedVideo, febVideo])
     = 3"
proof -
  have "filter (spec_matchesUser ''a@x.com'') [janVideo, otherVideo, nestedVideo, febVideo] =
          [janVideo, nestedVideo, febVideo]"
    by code_simp
  with computeStats_totals [of isoDateOnly "''a@x.com''"
      "[janVideo, otherVideo, nestedVideo, febVideo]"]
  show ?thesis by (simp add: orZero_def)
qed

subsection \<open>Recent and popular videos\<close>

text \<open>
  C2, as amended. For every feed in which the \<^verbatim>\<open>upload_date\<close> of each of the user's records,
  when present, parses to a valid date, \<^verbatim>\<open>recentVideos\<close> is the first three elements (all
  of them when there are fewer) of an arrangement of the user's records in descending
  order of upload time, where a record without \<^verbatim>\<open>upload_date\<close> has the time of the epoch.
\<close>

theorem recentVideos_sorted_prefix:
  assumes "list_all (\<lambda>v. dateValue parse v \<noteq> None) (filter (spec_matchesUser e) allVideos)"
  shows "(\<exists>ys. mset ys = mset (filter (spec_matchesUser e) allVideos) \<and>
               sorted_wrt (\<lambda>a b. spec_uploadTime parse b \<le> spec_uploadTime parse a) ys \<and>
               recentVideos (computeStats parse e allVideos) = take 3 ys) \<and>
         length (recentVideos (computeStats parse e allVideos)) \<le> 3 \<and>
         spec_uploadTime parse (v\<lparr>upload_date := None\<rparr>) = 0"
proof -
  let ?uv = "userVideos e allVideos"
  let ?s = "arraySort (compareByDate parse) ?uv"
  have valid: "\<And>v. v \<in> set ?uv \<Longrightarrow> dateValue parse v \<noteq> None"
    using assms by (simp add: userVideos_spec list_all_iff)
  have "sorted_wrt (\<lambda>a b. spec_uploadTime parse b \<le> spec_uploadTime parse a) ?s"
    by (rule sorted_arraySort) (simp add: sortCompare_date valid)
  moreover have "mset ?s = mset (filter (spec_matchesUser e) allVideos)"
    by (simp add: mset_arraySort userVideos_spec)
  ultimately have "\<exists>ys. mset ys = mset (filter (spec_matchesUser e) allVideos) \<and>
      sorted_wrt (\<lambda>a b. spec_uploadTime parse b \<le> spec_uploadTime parse a) ys \<and>
      recentVideos (computeStats parse e allVideos) = take 3 ys"
    using recentVideos_computeStats by blast
  moreover have "length (recentVideos (computeStats parse e allVideos)) \<le> 3"
    by (simp add: recentVideos_computeStats)
  moreover have "spec_uploadTime parse (v\<lparr>upload_date := None\<rparr>) = 0"
    by (simp add: spec_uploadTime_def dateValue_def)
  ultimately show ?thesis by blast
qed

theorem recentVideos_sorted_prefix_witness:
  "list_all (\<lambda>v. dateValue isoDateOnly v \<noteq> None)
     (filter (spec_matchesUser ''a@x.com'') [janVideo, otherVideo, nestedVideo, febVideo]) \<and>
   length (recentVideos
     (computeStats isoDateOnly ''a@x.com'' [janVideo, otherVideo, nestedVideo, febVideo])) \<le> 3 \<and>
   recentVideos
     (computeStats isoDateOnly ''a@x.com'' [janVideo, otherVideo, nestedVideo, febVideo]) =
     [febVideo, janVideo, nestedVideo]"
proof -
  have r: "recentVideos
     (computeStats isoDateOnly ''a@x.com'' [janVideo, otherVideo, nestedVideo, febVideo]) =
     [febVideo, janVideo, nestedVideo]"
    by code_simp
  have h: "list_all (\<lambda>v. dateValue isoDateOnly v \<noteq> None)
     (filter (spec_matchesUser ''a@x.com'') [janVideo, otherVideo, nestedVideo, febVideo])"
    by code_simp
  from recentVideos_sorted_prefix [OF h] h r show ?thesis by simp
qed

text \<open>
  The claim as stated, for every feed, fails where a date does not parse: the comparator
  of line 378 gives \<^verbatim>\<open>NaN\<close> on every pair with that record, the sort reads it as \<open>0\<close>, and
  with the record between two others no comparison made moves anything. All three records
  are the user's, \<^verbatim>\<open>recentVideos\<close> is the feed as it came, and January stands before March.
\<close>

theorem recentVideos_invalid_date_counterexample:
  "userVideos ''a@x.com'' [janVideo, garbageVideo, marVideo] =
     [janVideo, garbageVideo, marVideo] \<and>
   compareByDate isoDateOnly janVideo garbageVideo = None \<and>
   compareByDate isoDateOnly garbageVideo marVideo = None \<and>
   recentVideos (computeStats isoDateOnly ''a@x.com'' [janVideo, garbageVideo, marVideo]) =
     [janVideo, garbageVideo, marVideo] \<and>
   spec_uploadTime isoDateOnly janVideo < spec_uploadTime isoDateOnly marVideo"
  by code_simp

text \<open>
  C3. For every feed, \<^verbatim>\<open>popularVideos\<close> is the first two elements (all of them when there
  are fewer) of an arrangement of the user's records in descending order of views, where
  a record without \<^verbatim>\<open>views\<close> has \<open>0\<close> views.
\<close>

theorem popularVideos_sorted_prefix:
  "(\<exists>ys. mset ys = mset (filter (spec_matchesUser e) allVideos) \<and>
         sorted_wrt (\<lambda>a b. orZero (views b) \<le> orZero (views a)) ys \<and>
         popularVideos (computeStats parse e allVideos) = take 2 ys) \<and>
   length (popularVideos (computeStats parse e allVideos)) \<le> 2 \<and>
   orZero (views (v\<lparr>views := None\<rparr>)) = 0"
proof -
  let ?uv = "userVideos e allVideos"
  let ?s = "arraySort compareByViews ?uv"
  have "sorted_wrt (\<lambda>a b. orZero (views b) \<le> orZero (views a)) ?s"
    by (rule sorted_arraySort [where key = "\<lambda>v. orZero (views v)"])
      (simp add: sortCompare_views)
  moreover have "mset ?s = mset (filter (spec_matchesUser e) allVideos)"
    by (simp add: mset_arraySort userVideos_spec)
  ultimately have "\<exists>ys. mset ys = mset (filter (spec_matchesUser e) allVideos) \<and>
      sorted_wrt (\<lambda>a b. orZero (views b) \<le> orZero (views a)) ys \<and>
      popularVideos (computeStats parse e allVideos) = take 2 ys"
    using popularVideos_computeStats by blast
  moreover have "length (popularVideos (computeStats parse e allVideos)) \<le> 2"
    by (simp add: popularVideos_computeStats)
  moreover have "orZero (views (v\<lparr>views := None\<rparr>)) = 0"
    by (simp add: orZero_def)
  ultimately show ?thesis by blast
qed

theorem popularVideos_sorted_prefix_witness:
  "length (popularVideos
     (computeStats isoDateOnly ''a@x.com'' [janVideo, otherVideo, nestedVideo, febVideo])) \<le> 2 \<and>
   popularVideos
     (computeStats isoDateOnly ''a@x.com'' [janVideo, otherVideo, nestedVideo, febVideo]) =
     [febVideo, nestedVideo]"
proof -
  have "popularVideos
     (computeStats isoDateOnly ''a@x.com'' [janVideo, otherVideo, nestedVideo, febVideo]) =
     [febVideo, nestedVideo]"
    by code_simp
  with popularVideos_sorted_prefix
    [of "''a@x.com''" "[janVideo, otherVideo, nestedVideo, febVideo]" isoDateOnly]
  show ?thesis by simp
qed

text \<open>
  C9. For the feed of the two records \<^verbatim>\<open>{uploader_email: "A@x.com", views: 5, likes: 1,
  upload_date: "2024-01-01"}\<close> and \<^verbatim>\<open>{uploader_email: "a@x.com", views: 10, likes: 2,
  upload_date: "2024-02-01"}\<close> and the user email \<^verbatim>\<open>a@x.com\<close>, the stats are 2 videos,
  15 views, 3 likes, \<^verbatim>\<open>recentVideos\<close> with February before January and \<^verbatim>\<open>popularVideos\<close>
  with February (10 views) before January (5 views), for every date parser that reads
  the two dates in their calendar order.
\<close>

theorem spec_example:
  assumes "parse ''2024-01-01'' = Some t1" and "parse ''2024-02-01'' = Some t2" and "t1 < t2"
  shows "computeStats parse ''a@x.com'' [janVideo, febVideo] =
         \<lparr>totalVideos = 2, totalViews = 15, totalLikes = 3, storageUsed = 25,
          recentVideos = [febVideo, janVideo], popularVideos = [febVideo, janVideo]\<rparr>"
proof -
  have low: "toLowerCase ''A@x.com'' = ''a@x.com''" "toLowerCase ''a@x.com'' = ''a@x.com''"
    by code_simp+
  show ?thesis
    using assms
    by (simp add: computeStats_def userVideos_def isUserVideo_def lowerEquals_def low
        nestedEmail_def orZero_def sortCompare_def compareByDate_def compareByViews_def
        dateValue_def Let_def)
qed

theorem spec_example_witness:
  "isoDateOnly ''2024-01-01'' = Some 1704067200000 \<and>
   isoDateOnly ''2024-02-01'' = Some 1706745600000 \<and>
   (1704067200000 :: int) < 1706745600000 \<and>
   computeStats isoDateOnly ''a@x.com'' [janVideo, febVideo] =
     \<lparr>totalVideos = 2, totalViews = 15, totalLikes = 3, storageUsed = 25,
      recentVideos = [febVideo, janVideo], popularVideos = [febVideo, janVideo]\<rparr>"
proof -
  have jan: "isoDateOnly ''2024-01-01'' = Some 1704067200000"
    by code_simp
  have feb: "isoDateOnly ''2024-02-01'' = Some 1706745600000"
    by code_simp
  have lt: "(1704067200000 :: int) < 1706745600000"
    by simp
  from spec_example [OF jan feb lt] jan feb lt show ?thesis by simp
qed

subsection \<open>The filter\<close>

text \<open>
  C10. The filter is a disjunction: a record whose top-level \<^verbatim>\<open>uploader_email\<close> is present
  and does not match the user's email is still one of the user's records, and is counted
  in the totals, whenever the \<^verbatim>\<open>email\<close> of its nested \<^verbatim>\<open>uploader\<close> matches the user's email
  up to letter case.
\<close>

theorem nested_email_is_counted:
  assumes "uploader_email v = Some topEmail" and "toLowerCase topEmail \<noteq> toLowerCase e"
    and "uploader v = Some u" and "email u = Some nested"
    and "toLowerCase nested = toLowerCase e"
  shows "isUserVideo e v \<and>
         v \<in> set (userVideos e (xs @ v # ys)) \<and>
         totalVideos (computeStats parse e (xs @ v # ys)) =
           totalVideos (computeStats parse e (xs @ ys)) + 1 \<and>
         totalViews (computeStats parse e (xs @ v # ys)) =
           totalViews (computeStats parse e (xs @ ys)) + orZero (views v) \<and>
         totalLikes (computeStats parse e (xs @ v # ys)) =
           totalLikes (computeStats parse e (xs @ ys)) + orZero (likes v)"
proof -
  have m: "isUserVideo e v"
    using assms by (simp add: isUserVideo_def nestedEmail_def lowerEquals_def)
  then have "v \<in> set (userVideos e (xs @ v # ys))"
    by (simp add: userVideos_def)
  with m computeStats_append [OF m, of parse xs ys] show ?thesis by simp
qed

theorem nested_email_is_counted_witness:
  "uploader_email nestedVideo = Some ''other@x.com'' \<and>
   toLowerCase ''other@x.com'' \<noteq> toLowerCase ''a@x.com'' \<and>
   uploader nestedVideo = Some \<lparr>email = Some ''A@X.COM''\<rparr> \<and>
   toLowerCase ''A@X.COM'' = toLowerCase ''a@x.com'' \<and>
   isUserVideo ''a@x.com'' nestedVideo \<and>
   totalVideos (computeStats isoDateOnly ''a@x.com'' [otherVideo, nestedVideo]) = 1 \<and>
   totalViews (computeStats isoDateOnly ''a@x.com'' [otherVideo, nestedVideo]) = 7"
proof -
  have h1: "uploader_email nestedVideo = Some ''other@x.com''"
    by simp
  have h2: "toLowerCase ''other@x.com'' \<noteq> toLowerCase ''a@x.com''"
    by code_simp
  have h3: "uploader nestedVideo = Some \<lparr>email = Some ''A@X.COM''\<rparr>"
    by simp
  have h4: "email \<lparr>email = Some ''A@X.COM''\<rparr> = Some ''A@X.COM''"
    by simp
  have h5: "toLowerCase ''A@X.COM'' = toLowerCase ''a@x.com''"
    by code_simp
  have rest: "totalVideos (computeStats isoDateOnly ''a@x.com'' [otherVideo]) = 0"
    "totalViews (computeStats isoDateOnly ''a@x.com'' [otherVideo]) = 0"
    by code_simp+
  from nested_email_is_counted [OF h1 h2 h3 h4 h5, of "[otherVideo]" "[]" isoDateOnly]
    h2 h5 rest
  show ?thesis by (simp add: orZero_def)
qed

subsection \<open>PrivateRoute\<close>

text \<open>
  C4. At every render, after any history of auth contexts, PrivateRoute renders the
  spinner iff \<^verbatim>\<open>loading\<close> is true and auth has not yet settled (the provider has reported
  \<^verbatim>\<open>loading = false\<close> at no render so far, this one included); it renders the redirect to
  \<^verbatim>\<open>/login\<close>, carrying the current location as \<^verbatim>\<open>state.from\<close>, iff auth has settled and there
  is no user; and it renders its children, unchanged, in every other case.
\<close>

theorem PrivateRoute_renders:
  "(PrivateRoute ctx location children (afterRenders history) = Spinner \<longleftrightarrow>
      authLoading ctx \<and> \<not> settled (history @ [ctx])) \<and>
   (PrivateRoute ctx location children (afterRenders history) =
      Navigate ''/login'' location True \<longleftrightarrow>
      settled (history @ [ctx]) \<and> user ctx = None) \<and>
   (PrivateRoute ctx location children (afterRenders history) = Children children \<longleftrightarrow>
      \<not> (authLoading ctx \<and> \<not> settled (history @ [ctx])) \<and>
      \<not> (settled (history @ [ctx]) \<and> user ctx = None))"
  by (auto simp: PrivateRoute_def authChecked_afterRenders settled_snoc)

theorem PrivateRoute_renders_witness:
  "PrivateRoute \<lparr>user = None, authLoading = True\<rparr> ''/dashboard'' ''Dashboard''
     (afterRenders []) = Spinner \<and>
   PrivateRoute \<lparr>user = None, authLoading = True\<rparr> ''/dashboard'' ''Dashboard''
     (afterRenders [\<lparr>user = None, authLoading = True\<rparr>, \<lparr>user = None, authLoading = False\<rparr>])
     = Navigate ''/login'' ''/dashboard'' True \<and>
   PrivateRoute \<lparr>user = Some \<lparr>user_email = Some ''a@x.com'', displayName = None\<rparr>,
                  authLoading = False\<rparr> ''/dashboard'' ''Dashboard''
     (afterRenders [\<lparr>user = None, authLoading = True\<rparr>]) = Children ''Dashboard''"
  using
    PrivateRoute_renders [of "\<lparr>user = None, authLoading = True\<rparr>" "''/dashboard''"
      "''Dashboard''" "[]"]
    PrivateRoute_renders [of "\<lparr>user = None, authLoading = True\<rparr>" "''/dashboard''"
      "''Dashboard''" "[\<lparr>user = None, authLoading = True\<rparr>, \<lparr>user = None, authLoading = False\<rparr>]"]
    PrivateRoute_renders [of
      "\<lparr>user = Some \<lparr>user_email = Some ''a@x.com'', displayName = None\<rparr>, authLoading = False\<rparr>"
      "''/dashboard''" "''Dashboard''" "[\<lparr>user = None, authLoading = True\<rparr>]"]
  by (simp add: settled_def)

subsection \<open>The outcomes of the fetch\<close>

text \<open>
  C5, as amended. For every run in which \<^verbatim>\<open>getVideoFeed\<close> rejects before the cleanup of the
  effect has run (the component is still mounted), the resulting stats are the
  all-zero, empty default, and the error is set to the message of the rejection, or to
  the fallback message when the rejection has no message or an empty one; the component
  then shows the alert with that message, and dismissing the alert clears the error and
  shows the dashboard with the default stats.
\<close>

theorem rejection_while_mounted:
  "(let d' = component (runEvents parse e (startFetch d) (Settle (Rejected fetchError) # evs))
    in stats d' =
         \<lparr>totalVideos = 0, totalViews = 0, totalLikes = 0,
          storageUsed = 0, recentVideos = [], popularVideos = []\<rparr> \<and>
       error d' =
         Some (case message fetchError of
                 None \<Rightarrow> ''Failed to load video data. Please try again later.''
               | Some m \<Rightarrow>
                   if m = [] then ''Failed to load video data. Please try again later.''
                   else m) \<and>
       loading d' = False \<and>
       dashboardView True d' = ErrorAlert (errorMessage fetchError) \<and>
       error (onDismiss d') = None \<and>
       dashboardView True (onDismiss d') = DashboardHome (stats d'))"
  by (simp add: run_settle_first beforeAwait_def afterAwait_def emptyStats_def
      dashboardView_def onDismiss_def errorMessage_nonempty)
    (simp add: errorMessage_def)

theorem rejection_while_mounted_witness:
  "error (component (runEvents isoDateOnly ''a@x.com'' (startFetch afterFirstFetch)
     [Settle (Rejected \<lparr>message = Some ''Network Error''\<rparr>)])) = Some ''Network Error'' \<and>
   stats (component (runEvents isoDateOnly ''a@x.com'' (startFetch afterFirstFetch)
     [Settle (Rejected \<lparr>message = Some ''Network Error''\<rparr>)])) = emptyStats"
  using rejection_while_mounted [of isoDateOnly "''a@x.com''" afterFirstFetch
      "\<lparr>message = Some ''Network Error''\<rparr>" "[]"]
  by (simp add: Let_def emptyStats_def)

text \<open>
  The claim as stated fails on a run whose effect is cleaned up before the rejection
  arrives: the stats of the earlier fetch stay, and no error is set.
\<close>

theorem rejection_after_cleanup_counterexample:
  "stats (component (runEvents isoDateOnly ''a@x.com'' (startFetch afterFirstFetch)
     [Cleanup, Settle (Rejected \<lparr>message = Some ''Network Error''\<rparr>)])) \<noteq> emptyStats \<and>
   error (component (runEvents isoDateOnly ''a@x.com'' (startFetch afterFirstFetch)
     [Cleanup, Settle (Rejected \<lparr>message = Some ''Network Error''\<rparr>)])) = None"
  by code_simp

text \<open>
  C6, as amended. For every run in which \<^verbatim>\<open>getVideoFeed\<close> resolves with a value that is not
  an array before the cleanup of the effect has run, the resulting stats are the
  all-zero, empty default and no error is set: the error is \<^verbatim>\<open>null\<close>, and the component
  shows the dashboard with the default stats.
\<close>

theorem nonArray_while_mounted:
  "(let d' = component (runEvents parse e (startFetch d) (Settle (Resolved NonArray) # evs))
    in stats d' =
         \<lparr>totalVideos = 0, totalViews = 0, totalLikes = 0,
          storageUsed = 0, recentVideos = [], popularVideos = []\<rparr> \<and>
       error d' = None \<and>
       loading d' = False \<and>
       dashboardView True d' = DashboardHome (stats d'))"
  by (simp add: run_settle_first beforeAwait_def afterAwait_def emptyStats_def
      dashboardView_def)

theorem nonArray_while_mounted_witness:
  "error (component (runEvents isoDateOnly ''a@x.com'' (startFetch afterFirstFetch)
     [Settle (Resolved NonArray)])) = None \<and>
   stats (component (runEvents isoDateOnly ''a@x.com'' (startFetch afterFirstFetch)
     [Settle (Resolved NonArray)])) = emptyStats"
  using nonArray_while_mounted [of isoDateOnly "''a@x.com''" afterFirstFetch "[]"]
  by (simp add: Let_def emptyStats_def)

text \<open>
  The claim as stated fails on a run whose effect is cleaned up before the response
  arrives: the stats of the earlier fetch stay.
\<close>

theorem nonArray_after_cleanup_counterexample:
  "stats (component (runEvents isoDateOnly ''a@x.com'' (startFetch afterFirstFetch)
     [Cleanup, Settle (Resolved NonArray)])) =
     \<lparr>totalVideos = 1, totalViews = 10, totalLikes = 2, storageUsed = 25,
      recentVideos = [febVideo], popularVideos = [febVideo]\<rparr> \<and>
   stats (component (runEvents isoDateOnly ''a@x.com'' (startFetch afterFirstFetch)
     [Cleanup, Settle (Resolved NonArray)])) \<noteq> emptyStats"
  by code_simp

text \<open>
  C7, as amended. \<^verbatim>\<open>storageUsed\<close> is a placeholder with two values: every stats object a
  fetch sets carries 25 when the feed is an array with at least one record of the user,
  and 0 in every other outcome (no record of the user, a response that is not an array,
  a rejection). It depends on nothing else.
\<close>

theorem storageUsed_by_outcome:
  "setStats s \<in> set (afterAwait parse e mounted outcome) \<Longrightarrow>
   storageUsed s =
     (case outcome of
        Resolved (ArrayOf vs) \<Rightarrow> if filter (spec_matchesUser e) vs = [] then 0 else 25
      | Resolved NonArray \<Rightarrow> 0
      | Rejected fetchError \<Rightarrow> 0)"
  by (auto simp: afterAwait_def computeStats_def emptyStats_def Let_def userVideos_spec
      split: fetch_outcome.splits feed_response.splits if_splits)

theorem storageUsed_by_outcome_witness:
  "setStats (computeStats isoDateOnly ''a@x.com'' [febVideo])
     \<in> set (afterAwait isoDateOnly ''a@x.com'' True (Resolved (ArrayOf [febVideo]))) \<and>
   storageUsed (computeStats isoDateOnly ''a@x.com'' [febVideo]) = 25"
proof -
  have h: "setStats (computeStats isoDateOnly ''a@x.com'' [febVideo])
     \<in> set (afterAwait isoDateOnly ''a@x.com'' True (Resolved (ArrayOf [febVideo])))"
    by (simp add: afterAwait_def)
  have f: "filter (spec_matchesUser ''a@x.com'') [febVideo] = [febVideo]"
    by code_simp
  from storageUsed_by_outcome [OF h] h f show ?thesis by simp
qed

text \<open>
  The claim as stated fails: a fetch that finds a record of the user sets 25, a fetch
  that finds none sets 0.
\<close>

theorem storageUsed_counterexample:
  "storageUsed (stats (component (runEvents isoDateOnly ''a@x.com''
     (startFetch initialDashboard) [Settle (Resolved (ArrayOf [febVideo]))]))) = 25 \<and>
   storageUsed (stats (component (runEvents isoDateOnly ''a@x.com''
     (startFetch initialDashboard) [Settle (Resolved (ArrayOf [otherVideo]))]))) = 0"
  by code_simp

subsection \<open>Unmounting\<close>

text \<open>
  C8. In every run, once the cleanup of the effect has run (the component unmounted
  before the fetch settled), whatever happens afterwards makes no setter call and changes
  neither stats, error nor loading: every call after the \<^verbatim>\<open>await\<close> is guarded by the flag.
\<close>

theorem no_write_after_unmount:
  "calls (runEvents parse e r (before @ Cleanup # after)) = calls (runEvents parse e r before) \<and>
   component (runEvents parse e r (before @ Cleanup # after)) =
     component (runEvents parse e r before) \<and>
   afterAwait parse e False outcome = []"
proof -
  let ?r = "step parse e (runEvents parse e r before) Cleanup"
  have "\<not> isMounted ?r" by simp
  from runEvents_unmounted [OF this, of parse e after]
  show ?thesis by (simp add: runEvents_def afterAwait_unmounted)
qed

theorem no_write_after_unmount_witness:
  "calls (runEvents isoDateOnly ''a@x.com'' (startFetch afterFirstFetch)
     [Cleanup, Settle (Resolved (ArrayOf [janVideo]))]) = [setLoading True, setError None]"
  using no_write_after_unmount [of isoDateOnly "''a@x.com''" "startFetch afterFirstFetch"
      "[]" "[Settle (Resolved (ArrayOf [janVideo]))]"]
  by (simp add: runEvents_Nil startFetch_def call_def beforeAwait_def)

end
